theory Spec2Isabelle
  imports Main "HOL-Library.Word" "HOL-Library.AList" "HOL-Library.Multiset"
begin

section \<open>Platform strings\<close>

text \<open>
  A string of the source language is a sequence of 16-bit code units. All platform
  functions below (\<open>trim\<close>, the byte size of a \<open>Blob\<close>, number formatting) are modelled
  on such sequences, after the language and web-platform standards.
\<close>

type_synonym jsstring = "16 word list"

text \<open>String literals of the source are ASCII; \<open>ascii\<close> embeds them.\<close>

definition ascii :: "string \<Rightarrow> jsstring" where
  "ascii s = map of_char s"

text \<open>
  \<open>String.prototype.trim\<close> strips the code units that are WhiteSpace or LineTerminator:
  TAB, LF, VT, FF, CR, SP, NBSP, U+1680, U+2000..U+200A, U+2028, U+2029, U+202F, U+205F,
  U+3000 and U+FEFF.
\<close>

definition isWhiteSpace :: "16 word \<Rightarrow> bool" where
  "isWhiteSpace c \<longleftrightarrow>
     c = 0x9 \<or> c = 0xA \<or> c = 0xB \<or> c = 0xC \<or> c = 0xD \<or> c = 0x20 \<or> c = 0xA0 \<or>
     c = 0x1680 \<or> (0x2000 \<le> c \<and> c \<le> 0x200A) \<or> c = 0x2028 \<or> c = 0x2029 \<or>
     c = 0x202F \<or> c = 0x205F \<or> c = 0x3000 \<or> c = 0xFEFF"

definition trim :: "jsstring \<Rightarrow> jsstring" where
  "trim s = rev (dropWhile isWhiteSpace (rev (dropWhile isWhiteSpace s)))"

text \<open>\<open>s.substr(start, len)\<close> for non-negative arguments.\<close>

definition substr :: "jsstring \<Rightarrow> nat \<Rightarrow> nat \<Rightarrow> jsstring" where
  "substr s start len = take len (drop start s)"

text \<open>The decimal rendering of a non-negative integer inside a template literal.\<close>

fun string_of_nat :: "nat \<Rightarrow> jsstring" where
  "string_of_nat n =
     (if n < 10 then [of_nat (48 + n)]
      else string_of_nat (n div 10) @ [of_nat (48 + n mod 10)])"

declare string_of_nat.simps [simp del]

subsection \<open>The byte size of a Blob built from one string\<close>

text \<open>
  \<open>new Blob([s]).size\<close> is the number of bytes of the UTF-8 encoding of \<open>s\<close>. The string
  is first read as a sequence of scalar values: a lead surrogate followed by a trail
  surrogate is one supplementary code point, any other surrogate is replaced by U+FFFD.
\<close>

definition isLead :: "16 word \<Rightarrow> bool" where
  "isLead c \<longleftrightarrow> 0xD800 \<le> c \<and> c \<le> 0xDBFF"

definition isTrail :: "16 word \<Rightarrow> bool" where
  "isTrail c \<longleftrightarrow> 0xDC00 \<le> c \<and> c \<le> 0xDFFF"

fun scalar_values :: "jsstring \<Rightarrow> nat list" where
  "scalar_values [] = []"
| "scalar_values [c] = [if isLead c \<or> isTrail c then 0xFFFD else unat c]"
| "scalar_values (c # d # cs) =
     (if isLead c then
        (if isTrail d
         then (0x10000 + (unat c - 0xD800) * 0x400 + (unat d - 0xDC00)) # scalar_values cs
         else 0xFFFD # scalar_values (d # cs))
      else if isTrail c then 0xFFFD # scalar_values (d # cs)
      else unat c # scalar_values (d # cs))"

definition utf8_of_scalar :: "nat \<Rightarrow> 8 word list" where
  "utf8_of_scalar cp =
     (if cp < 0x80 then [of_nat cp]
      else if cp < 0x800 then [of_nat (0xC0 + cp div 0x40), of_nat (0x80 + cp mod 0x40)]
      else if cp < 0x10000 then
        [of_nat (0xE0 + cp div 0x1000), of_nat (0x80 + cp div 0x40 mod 0x40),
         of_nat (0x80 + cp mod 0x40)]
      else
        [of_nat (0xF0 + cp div 0x40000), of_nat (0x80 + cp div 0x1000 mod 0x40),
         of_nat (0x80 + cp div 0x40 mod 0x40), of_nat (0x80 + cp mod 0x40)])"

definition utf8_encode :: "jsstring \<Rightarrow> 8 word list" where
  "utf8_encode s = concat (map utf8_of_scalar (scalar_values s))"

definition Blob_size :: "jsstring \<Rightarrow> nat" where
  "Blob_size s = length (utf8_encode s)"

section \<open>The persistent key/value store\<close>

text \<open>
  \<open>localStorage\<close> is the browser's store: at most one value per key, keys enumerated by
  index. It is modelled as an association list in enumeration order. A write overwrites
  the value of a present key where it stands and appends an absent key; \<open>removeItem\<close>
  drops the key if present.

  The store has a quota, fixed by the browser: \<open>setItem\<close> throws
  \<open>QuotaExceededError\<close> and leaves the store as it is when the store would not fit the
  quota after the write. The quota is a parameter of the model, counted in code units of
  keys and values.
\<close>

type_synonym Storage = "(jsstring \<times> jsstring) list"

datatype error = QuotaExceededError

definition wf_store :: "Storage \<Rightarrow> bool" where
  "wf_store st \<longleftrightarrow> distinct (map fst st)"

definition store_length :: "Storage \<Rightarrow> nat" where
  "store_length st = length st"

definition store_key :: "Storage \<Rightarrow> nat \<Rightarrow> jsstring option" where
  "store_key st i = (if i < length st then Some (fst (st ! i)) else None)"

definition getItem :: "Storage \<Rightarrow> jsstring \<Rightarrow> jsstring option" where
  "getItem st k = map_of st k"

definition store_size :: "Storage \<Rightarrow> nat" where
  "store_size st = sum_list (map (\<lambda>(k, v). length k + length v) st)"

text \<open>The store after an accepted write of \<open>v\<close> under \<open>k\<close>.\<close>

definition put_item :: "jsstring \<Rightarrow> jsstring \<Rightarrow> Storage \<Rightarrow> Storage" where
  "put_item k v st = AList.update k v st"

definition setItem :: "nat \<Rightarrow> jsstring \<Rightarrow> jsstring \<Rightarrow> Storage \<Rightarrow> error + Storage" where
  "setItem quota k v st =
     (if store_size (put_item k v st) \<le> quota then Inr (put_item k v st)
      else Inl QuotaExceededError)"

definition removeItem :: "jsstring \<Rightarrow> Storage \<Rightarrow> Storage" where
  "removeItem k st = AList.delete k st"

definition clear :: "Storage \<Rightarrow> Storage" where
  "clear st = []"

section \<open>Data model\<close>

text \<open>
  \<open>KeyValuePair\<close> is \<open>{id, key, value}\<close> and \<open>LocalStorageItem\<close> is \<open>{key, value, size}\<close>;
  the field names carry a prefix here because the two interfaces share names.
\<close>

record KeyValuePair =
  row_id :: jsstring
  row_key :: jsstring
  row_value :: jsstring

record LocalStorageItem =
  item_key :: jsstring
  item_value :: jsstring
  item_size :: nat

datatype severity = Success | Error

text \<open>
  The component state (\<open>inputs\<close>, \<open>storedItems\<close>, \<open>notification\<close>) together with the
  store it reads and writes.
\<close>

record App =
  inputs :: "KeyValuePair list"
  storedItems :: "LocalStorageItem list"
  notification :: "(jsstring \<times> severity) option"
  localStorage :: Storage

section \<open>Identifiers\<close>

text \<open>
  \<open>generateId = () => Math.random().toString(36).substr(2, 9)\<close>. The random draw is an
  input of the model: \<open>rnd\<close> is the base-36 rendering \<open>Math.random().toString(36)\<close>.
\<close>

definition generateId :: "jsstring \<Rightarrow> jsstring" where
  "generateId rnd = substr rnd 2 9"

definition empty_row :: "jsstring \<Rightarrow> KeyValuePair" where
  "empty_row rnd = \<lparr>row_id = generateId rnd, row_key = [], row_value = []\<rparr>"

text \<open>The initial value of \<open>inputs\<close>.\<close>

definition initial_inputs :: "jsstring \<Rightarrow> KeyValuePair list" where
  "initial_inputs rnd = [empty_row rnd]"

section \<open>The storage mirror\<close>

text \<open>
  The loop of \<open>refreshStoredItems\<close> over the store interface: \<open>n\<close> is
  \<open>localStorage.length\<close>, \<open>keyAt\<close> is \<open>localStorage.key\<close> and \<open>get\<close> is
  \<open>localStorage.getItem\<close>, both of which may answer \<open>null\<close> (\<open>None\<close>).
\<close>

text \<open>\<open>x || ''\<close> for a string or \<open>null\<close>: the empty string is falsy.\<close>

definition or_empty :: "jsstring option \<Rightarrow> jsstring" where
  "or_empty x = (case x of None \<Rightarrow> [] | Some v \<Rightarrow> if v \<noteq> [] then v else [])"

function refresh_loop ::
  "nat \<Rightarrow> (nat \<Rightarrow> jsstring option) \<Rightarrow> (jsstring \<Rightarrow> jsstring option) \<Rightarrow>
   nat \<Rightarrow> LocalStorageItem list \<Rightarrow> LocalStorageItem list" where
  "refresh_loop n keyAt get i items =
     (if i < n then
        (case keyAt i of
           Some k \<Rightarrow>
             (let v = or_empty (get k)
              in refresh_loop n keyAt get (i + 1)
                   (items @ [\<lparr>item_key = k, item_value = v, item_size = Blob_size (k @ v)\<rparr>]))
         | None \<Rightarrow> refresh_loop n keyAt get (i + 1) items)
      else items)"
  by pat_completeness auto
termination
  by (relation "measure (\<lambda>(n, keyAt, get, i, items). n - i)") auto

declare refresh_loop.simps [simp del]

text \<open>
  \<open>Array.prototype.sort(cmp)\<close> is a stable sort; \<open>x\<close> goes before \<open>y\<close> when
  \<open>cmp x y \<le> 0\<close>. For a consistent comparator every stable sort gives the same array;
  insertion from the right is one.
\<close>

fun insert_sorted :: "('a \<Rightarrow> 'a \<Rightarrow> int) \<Rightarrow> 'a \<Rightarrow> 'a list \<Rightarrow> 'a list" where
  "insert_sorted cmp x [] = [x]"
| "insert_sorted cmp x (y # ys) =
     (if cmp x y \<le> 0 then x # y # ys else y # insert_sorted cmp x ys)"

definition sort_js :: "('a \<Rightarrow> 'a \<Rightarrow> int) \<Rightarrow> 'a list \<Rightarrow> 'a list" where
  "sort_js cmp xs = foldr (insert_sorted cmp) xs []"

text \<open>
  \<open>localeCompare\<close> depends on the host's locale; it is the parameter \<open>lc\<close> (negative,
  zero or positive).
\<close>

definition refresh_items ::
  "(jsstring \<Rightarrow> jsstring \<Rightarrow> int) \<Rightarrow> nat \<Rightarrow> (nat \<Rightarrow> jsstring option) \<Rightarrow>
   (jsstring \<Rightarrow> jsstring option) \<Rightarrow> LocalStorageItem list" where
  "refresh_items lc n keyAt get =
     sort_js (\<lambda>a b. lc (item_key a) (item_key b)) (refresh_loop n keyAt get 0 [])"

definition refreshStoredItems :: "(jsstring \<Rightarrow> jsstring \<Rightarrow> int) \<Rightarrow> App \<Rightarrow> App" where
  "refreshStoredItems lc app =
     app\<lparr>storedItems :=
       refresh_items lc (store_length (localStorage app)) (store_key (localStorage app))
         (getItem (localStorage app))\<rparr>"

section \<open>Notifications\<close>

text \<open>
  \<open>showNotification\<close> replaces the current notification; the timer that clears it three
  seconds later is outside the model.
\<close>

definition showNotification :: "jsstring \<Rightarrow> severity \<Rightarrow> App \<Rightarrow> App" where
  "showNotification message type app = app\<lparr>notification := Some (message, type)\<rparr>"

section \<open>The edit buffer\<close>

definition addRow :: "jsstring \<Rightarrow> KeyValuePair list \<Rightarrow> KeyValuePair list" where
  "addRow rnd rows = rows @ [empty_row rnd]"

definition removeRow :: "jsstring \<Rightarrow> KeyValuePair list \<Rightarrow> KeyValuePair list" where
  "removeRow i rows =
     (if length rows > 1 then filter (\<lambda>row. row_id row \<noteq> i) rows else rows)"

datatype field = Key | Value

definition handleInputChange ::
  "jsstring \<Rightarrow> field \<Rightarrow> jsstring \<Rightarrow> KeyValuePair list \<Rightarrow> KeyValuePair list" where
  "handleInputChange i fld val rows =
     map (\<lambda>row. if row_id row = i
                then (case fld of Key \<Rightarrow> row\<lparr>row_key := val\<rparr> | Value \<Rightarrow> row\<lparr>row_value := val\<rparr>)
                else row) rows"

text \<open>A sequence of buffer operations, each with the input it receives.\<close>

datatype buffer_op = AddRow jsstring | RemoveRow jsstring

fun apply_op :: "buffer_op \<Rightarrow> KeyValuePair list \<Rightarrow> KeyValuePair list" where
  "apply_op (AddRow rnd) rows = addRow rnd rows"
| "apply_op (RemoveRow i) rows = removeRow i rows"

fun run_ops :: "buffer_op list \<Rightarrow> KeyValuePair list \<Rightarrow> KeyValuePair list" where
  "run_ops [] rows = rows"
| "run_ops (op # ops) rows = run_ops ops (apply_op op rows)"

text \<open>
  \<open>fresh_ops ops rows\<close>: every identifier generated along the run is absent from the
  buffer it is added to.
\<close>

fun fresh_ops :: "buffer_op list \<Rightarrow> KeyValuePair list \<Rightarrow> bool" where
  "fresh_ops [] rows = True"
| "fresh_ops (AddRow rnd # ops) rows =
     (generateId rnd \<notin> set (map row_id rows) \<and> fresh_ops ops (addRow rnd rows))"
| "fresh_ops (RemoveRow i # ops) rows = fresh_ops ops (removeRow i rows)"

section \<open>Saving and deleting\<close>

text \<open>
  The \<open>forEach\<close> of \<open>saveToLocalStorage\<close>, on the store and the counter \<open>count\<close>. The source
  catches nothing: a \<open>setItem\<close> that throws ends the loop and the handler, with the
  writes made so far in the store (\<open>Inl\<close>).
\<close>

fun save_loop ::
  "nat \<Rightarrow> KeyValuePair list \<Rightarrow> Storage \<Rightarrow> nat \<Rightarrow> (error \<times> Storage) + (Storage \<times> nat)" where
  "save_loop quota [] st cnt = Inr (st, cnt)"
| "save_loop quota (row # rows) st cnt =
     (if trim (row_key row) \<noteq> [] then
        (case setItem quota (trim (row_key row)) (row_value row) st of
           Inl e \<Rightarrow> Inl (e, st)
         | Inr st' \<Rightarrow> save_loop quota rows st' (cnt + 1))
      else save_loop quota rows st cnt)"

text \<open>
  The handler returns the new state (\<open>Inr\<close>), or throws (\<open>Inl\<close>) and leaves the state
  it had reached: no notification, no refresh and no reset follow the exception.
\<close>

definition saveToLocalStorage ::
  "nat \<Rightarrow> (jsstring \<Rightarrow> jsstring \<Rightarrow> int) \<Rightarrow> jsstring \<Rightarrow> App \<Rightarrow> (error \<times> App) + App" where
  "saveToLocalStorage quota lc rnd app =
     (case save_loop quota (inputs app) (localStorage app) 0 of
        Inl (e, st) \<Rightarrow> Inl (e, app\<lparr>localStorage := st\<rparr>)
      | Inr (st, cnt) \<Rightarrow>
          (let app1 = app\<lparr>localStorage := st\<rparr>
           in Inr (if cnt > 0 then
                     (refreshStoredItems lc
                        (showNotification
                           (ascii ''Successfully saved '' @ string_of_nat cnt
                              @ ascii '' item(s)'')
                           Success app1))
                     \<lparr>inputs := [empty_row rnd]\<rparr>
                   else showNotification (ascii ''Please enter at least one key'') Error app1)))"

text \<open>The state the handler leaves, whether it returned or threw.\<close>

definition state_after :: "(error \<times> App) + App \<Rightarrow> App" where
  "state_after r = (case r of Inl (e, app) \<Rightarrow> app | Inr app \<Rightarrow> app)"

definition deleteItem :: "(jsstring \<Rightarrow> jsstring \<Rightarrow> int) \<Rightarrow> jsstring \<Rightarrow> App \<Rightarrow> App" where
  "deleteItem lc k app =
     showNotification (ascii ''Deleted \"'' @ k @ ascii ''\"'') Success
       (refreshStoredItems lc (app\<lparr>localStorage := removeItem k (localStorage app)\<rparr>))"

text \<open>\<open>clearAll\<close>; \<open>confirmed\<close> is the answer of the confirmation dialog.\<close>

definition clearAll :: "(jsstring \<Rightarrow> jsstring \<Rightarrow> int) \<Rightarrow> bool \<Rightarrow> App \<Rightarrow> App" where
  "clearAll lc confirmed app =
     (if confirmed then
        showNotification (ascii ''LocalStorage cleared'') Success
          (refreshStoredItems lc (app\<lparr>localStorage := clear (localStorage app)\<rparr>))
      else app)"

text \<open>
  A comparator for concrete runs: code units compared lexicographically, the order of
  \<open>localeCompare\<close> on lower-case ASCII letters.
\<close>

fun compare_units :: "jsstring \<Rightarrow> jsstring \<Rightarrow> int" where
  "compare_units [] [] = 0"
| "compare_units [] (y # ys) = -1"
| "compare_units (x # xs) [] = 1"
| "compare_units (x # xs) (y # ys) =
     (if x < y then -1 else if y < x then 1 else compare_units xs ys)"

text \<open>The entry the loop pushes for the key \<open>k\<close>.\<close>

definition entry_of :: "(jsstring \<Rightarrow> jsstring option) \<Rightarrow> jsstring \<Rightarrow> LocalStorageItem" where
  "entry_of get k =
     \<lparr>item_key = k, item_value = or_empty (get k), item_size = Blob_size (k @ or_empty (get k))\<rparr>"

text \<open>
  A comparator is consistent when the relation \<open>cmp a b \<le> 0\<close> is total and transitive;
  the order of a sorted array is defined for such comparators only.
\<close>

definition consistent :: "('a \<Rightarrow> 'a \<Rightarrow> int) \<Rightarrow> bool" where
  "consistent cmp \<longleftrightarrow>
     (\<forall>a b. cmp a b \<le> 0 \<or> cmp b a \<le> 0) \<and>
     (\<forall>a b c. cmp a b \<le> 0 \<and> cmp b c \<le> 0 \<longrightarrow> cmp a c \<le> 0)"

text \<open>Concrete stores and buffers of the scenarios.\<close>

definition store_foo_bar :: Storage where
  "store_foo_bar = [(ascii ''foo'', ascii ''1''), (ascii ''bar'', ascii ''2'')]"

definition app_of :: "KeyValuePair list \<Rightarrow> Storage \<Rightarrow> App" where
  "app_of rows st = \<lparr>inputs = rows, storedItems = [], notification = None, localStorage = st\<rparr>"

definition rows_theme :: "KeyValuePair list" where
  "rows_theme =
     [\<lparr>row_id = ascii ''r1'', row_key = ascii ''theme'', row_value = ascii ''dark''\<rparr>,
      \<lparr>row_id = ascii ''r2'', row_key = [], row_value = ascii ''x''\<rparr>]"

definition rows_blank :: "KeyValuePair list" where
  "rows_blank =
     [\<lparr>row_id = ascii ''r1'', row_key = [], row_value = ascii ''x''\<rparr>,
      \<lparr>row_id = ascii ''r2'', row_key = ascii ''  '', row_value = ascii ''y''\<rparr>]"

text \<open>Two random draws, as \<open>Math.random().toString(36)\<close> renders them.\<close>

definition rnd_a :: jsstring where
  "rnd_a = ascii ''0.4fzyo82mvyr''"

definition rnd_b :: jsstring where
  "rnd_b = ascii ''0.8k2x91bq7cd''"

definition rows_dup :: "KeyValuePair list" where
  "rows_dup =
     [\<lparr>row_id = ascii ''r1'', row_key = ascii ''theme'', row_value = ascii ''dark''\<rparr>,
      \<lparr>row_id = ascii ''r2'', row_key = ascii ''lang'', row_value = ascii ''en''\<rparr>,
      \<lparr>row_id = ascii ''r3'', row_key = ascii '' theme '', row_value = ascii ''light''\<rparr>]"

text \<open>The rows a save writes, and the writes themselves, in buffer order.\<close>

abbreviation written_rows :: "KeyValuePair list \<Rightarrow> KeyValuePair list" where
  "written_rows rows \<equiv> filter (\<lambda>row. trim (row_key row) \<noteq> []) rows"

abbreviation write_rows :: "Storage \<Rightarrow> KeyValuePair list \<Rightarrow> Storage" where
  "write_rows st rows \<equiv>
     foldl (\<lambda>st row. put_item (trim (row_key row)) (row_value row) st) st rows"

text \<open>The room a row's write takes at most.\<close>

abbreviation row_cost :: "KeyValuePair \<Rightarrow> nat" where
  "row_cost row \<equiv> length (trim (row_key row)) + length (row_value row)"

text \<open>Buffers whose writes a small quota refuses.\<close>

definition rows_over :: "KeyValuePair list" where
  "rows_over =
     [\<lparr>row_id = ascii ''r1'', row_key = ascii ''ok'', row_value = ascii ''1''\<rparr>,
      \<lparr>row_id = ascii ''r2'', row_key = ascii ''big'', row_value = ascii ''12345''\<rparr>]"

definition rows_dup_over :: "KeyValuePair list" where
  "rows_dup_over =
     [\<lparr>row_id = ascii ''r1'', row_key = ascii ''k'', row_value = ascii ''1''\<rparr>,
      \<lparr>row_id = ascii ''r2'', row_key = ascii ''k'', row_value = ascii ''12345''\<rparr>]"

definition rows_cycle :: "KeyValuePair list" where
  "rows_cycle =
     [\<lparr>row_id = ascii ''r1'', row_key = ascii ''c'', row_value = ascii ''x''\<rparr>,
      \<lparr>row_id = ascii ''r2'', row_key = ascii ''a'', row_value = ascii ''LLLLLLLLLL''\<rparr>,
      \<lparr>row_id = ascii ''r3'', row_key = ascii ''a'', row_value = ascii ''s''\<rparr>,
      \<lparr>row_id = ascii ''r4'', row_key = ascii ''b'', row_value = ascii ''MMMMMMMMMM''\<rparr>,
      \<lparr>row_id = ascii ''r5'', row_key = ascii ''c'', row_value = ascii ''y''\<rparr>]"

section \<open>Facts about the platform functions\<close>

lemma or_empty_Some [simp]: "or_empty (Some v) = v"
  by (simp add: or_empty_def)

lemma or_empty_None [simp]: "or_empty None = []"
  by (simp add: or_empty_def)

lemma or_empty_case: "or_empty x = (case x of None \<Rightarrow> [] | Some v \<Rightarrow> v)"
  by (cases x) simp_all

lemma generateId_rnd_a: "generateId rnd_a = ascii ''4fzyo82mv''"
  by (simp add: rnd_a_def generateId_def substr_def ascii_def)

lemma generateId_rnd_b: "generateId rnd_b = ascii ''8k2x91bq7''"
  by (simp add: rnd_b_def generateId_def substr_def ascii_def)

lemma mset_insert_sorted: "mset (insert_sorted cmp x ys) = add_mset x (mset ys)"
  by (induction ys) simp_all

lemma set_insert_sorted: "set (insert_sorted cmp x ys) = insert x (set ys)"
  by (induction ys) auto

lemma mset_sort_js: "mset (sort_js cmp xs) = mset xs"
  unfolding sort_js_def by (induction xs) (simp_all add: mset_insert_sorted)

lemma set_sort_js: "set (sort_js cmp xs) = set xs"
  using mset_sort_js [of cmp xs] by (metis set_mset_mset)

lemma length_sort_js: "length (sort_js cmp xs) = length xs"
  using mset_sort_js [of cmp xs] by (metis size_mset)

lemma sorted_insert_sorted:
  assumes "consistent cmp" "sorted_wrt (\<lambda>a b. cmp a b \<le> 0) ys"
  shows "sorted_wrt (\<lambda>a b. cmp a b \<le> 0) (insert_sorted cmp x ys)"
  using assms(2)
proof (induction ys)
  case Nil
  then show ?case by simp
next
  case (Cons y ys)
  show ?case
  proof (cases "cmp x y \<le> 0")
    case True
    have "cmp x z \<le> 0" if "z \<in> set ys" for z
    proof -
      from Cons.prems that have "cmp y z \<le> 0" by simp
      with True assms(1) show ?thesis unfolding consistent_def by blast
    qed
    with True Cons.prems show ?thesis by simp
  next
    case False
    with assms(1) have "cmp y x \<le> 0" unfolding consistent_def by blast
    with False Cons show ?thesis
      by (auto simp: set_insert_sorted)
  qed
qed

lemma sorted_sort_js:
  "consistent cmp \<Longrightarrow> sorted_wrt (\<lambda>a b. cmp a b \<le> 0) (sort_js cmp xs)"
  unfolding sort_js_def by (induction xs) (simp_all add: sorted_insert_sorted)

lemma compare_units_total: "compare_units a b \<le> 0 \<or> compare_units b a \<le> 0"
  by (induction a b rule: compare_units.induct) auto

lemma compare_units_trans:
  "compare_units a b \<le> 0 \<Longrightarrow> compare_units b c \<le> 0 \<Longrightarrow> compare_units a c \<le> 0"
proof (induction a b arbitrary: c rule: compare_units.induct)
  case 1
  then show ?case by simp
next
  case (2 y ys)
  then show ?case by (cases c) simp_all
next
  case (3 x xs)
  then show ?case by simp
next
  case (4 x xs y ys)
  then show ?case by (cases c) (auto split: if_splits)
qed

lemma consistent_compare_units: "consistent compare_units"
  unfolding consistent_def using compare_units_total compare_units_trans by blast

text \<open>
  The encoder on the euro sign, on a surrogate pair, on an unpaired surrogate, and on a
  key ending in a lead surrogate joined to a value starting with a trail surrogate.
\<close>

lemma utf8_encode_euro: "utf8_encode [0x20AC] = [0xE2, 0x82, 0xAC]"
  by (simp add: utf8_encode_def utf8_of_scalar_def isLead_def isTrail_def)

lemma utf8_encode_pair: "utf8_encode [0xD83D, 0xDE00] = [0xF0, 0x9F, 0x98, 0x80]"
  by (simp add: utf8_encode_def utf8_of_scalar_def isLead_def isTrail_def)

lemma Blob_size_unpaired: "Blob_size [0xD83D] = 3"
  by (simp add: Blob_size_def utf8_encode_def utf8_of_scalar_def isLead_def isTrail_def)

lemma Blob_size_joined_pair: "Blob_size ([0x6B, 0xD83D] @ [0xDE00, 0x76]) = 6"
  by (simp add: Blob_size_def utf8_encode_def utf8_of_scalar_def isLead_def isTrail_def)

section \<open>The loop of the mirror in closed form\<close>

lemma refresh_loop_eq:
  "refresh_loop n keyAt get i items =
     items @ List.map_filter (\<lambda>j. map_option (entry_of get) (keyAt j)) [i..<n]"
proof (induction n keyAt get i items rule: refresh_loop.induct)
  case (1 n keyAt get i items)
  show ?case
  proof (cases "i < n")
    case False
    then show ?thesis by (simp add: refresh_loop.simps [of n keyAt get i items])
  next
    case True
    then have upt: "[i..<n] = i # [i + 1..<n]" by (simp add: upt_conv_Cons)
    show ?thesis
    proof (cases "keyAt i")
      case None
      with True "1.IH"(1) show ?thesis
        by (simp add: refresh_loop.simps [of n keyAt get i items] upt)
    next
      case (Some k)
      with True "1.IH"(2) [of k "or_empty (get k)"] show ?thesis
        by (simp add: refresh_loop.simps [of n keyAt get i items] upt entry_of_def Let_def)
    qed
  qed
qed

text \<open>On a store with one value per key each lookup of the loop succeeds.\<close>

lemma refresh_loop_store:
  assumes "wf_store st"
  shows "refresh_loop (store_length st) (store_key st) (getItem st) 0 [] =
         map (\<lambda>(k, v). \<lparr>item_key = k, item_value = v, item_size = Blob_size (k @ v)\<rparr>) st"
proof -
  let ?mk = "\<lambda>(k, v). \<lparr>item_key = k, item_value = v, item_size = Blob_size (k @ v)\<rparr>"
  have get: "getItem st (fst (st ! j)) = Some (snd (st ! j))" if "j < length st" for j
  proof -
    from that have "(fst (st ! j), snd (st ! j)) \<in> set st" by simp
    with assms show ?thesis unfolding wf_store_def getItem_def by simp
  qed
  have "List.map_filter (\<lambda>j. map_option (entry_of (getItem st)) (store_key st j)) [0..<length st]
        = map (\<lambda>j. entry_of (getItem st) (fst (st ! j))) [0..<length st]"
    by (rule nth_equalityI) (auto simp: List.map_filter_def store_key_def o_def)
  also have "\<dots> = map (\<lambda>j. ?mk (st ! j)) [0..<length st]"
    by (rule map_cong) (auto simp: entry_of_def get split: prod.splits)
  also have "\<dots> = map ?mk st"
  proof -
    have "map (\<lambda>j. ?mk (st ! j)) [0..<length st] = map ?mk (map ((!) st) [0..<length st])"
      by (simp add: o_def)
    then show ?thesis by (simp only: map_nth)
  qed
  finally show ?thesis by (simp add: refresh_loop_eq store_length_def)
qed

lemma refresh_items_set:
  "set (refresh_items lc n keyAt get) =
     {entry_of get k | k i. i < n \<and> keyAt i = Some k}"
proof -
  have "set (List.map_filter (\<lambda>j. map_option (entry_of get) (keyAt j)) [0..<n]) =
        {entry_of get k | k i. i < n \<and> keyAt i = Some k}"
    by (force simp: List.map_filter_def image_iff)
  then show ?thesis
    by (simp add: refresh_items_def set_sort_js refresh_loop_eq)
qed

lemma refresh_items_length:
  "length (refresh_items lc n keyAt get) = length (filter (\<lambda>i. keyAt i \<noteq> None) [0..<n])"
  by (simp add: refresh_items_def length_sort_js refresh_loop_eq List.map_filter_def)

section \<open>The storage mirror: claims\<close>

lemma consistent_on_key: "consistent lc \<Longrightarrow> consistent (\<lambda>a b. lc (f a) (f b))"
  unfolding consistent_def by blast

lemma storedItems_refresh:
  "storedItems (refreshStoredItems lc app) =
     refresh_items lc (store_length (localStorage app)) (store_key (localStorage app))
       (getItem (localStorage app))"
  by (simp add: refreshStoredItems_def)

lemma refresh_items_store:
  "wf_store st \<Longrightarrow>
   refresh_items lc (store_length st) (store_key st) (getItem st) =
     sort_js (\<lambda>a b. lc (item_key a) (item_key b))
       (map (\<lambda>(k, v). \<lparr>item_key = k, item_value = v, item_size = Blob_size (k @ v)\<rparr>) st)"
  by (simp add: refresh_items_def refresh_loop_store)

lemmas eval_string = ascii_def trim_def isWhiteSpace_def
lemmas eval_blob = Blob_size_def utf8_encode_def utf8_of_scalar_def isLead_def isTrail_def

text \<open>
  Claim C4. For a store with one value per key and a consistent locale comparison, the
  projection right after \<open>refreshStoredItems\<close> holds exactly the key/value pairs of the
  store, is sorted ascending by key under that comparison, has as many entries as the
  store, and does not depend on the projection held before; the store is not touched.
\<close>

theorem refresh_projection_is_sorted_store:
  assumes "wf_store (localStorage app)" and "consistent lc"
  shows "mset (map (\<lambda>e. (item_key e, item_value e)) (storedItems (refreshStoredItems lc app)))
           = mset (localStorage app)
       \<and> sorted_wrt (\<lambda>a b. lc (item_key a) (item_key b) \<le> 0)
           (storedItems (refreshStoredItems lc app))
       \<and> length (storedItems (refreshStoredItems lc app)) = store_length (localStorage app)
       \<and> storedItems (refreshStoredItems lc (app\<lparr>storedItems := old\<rparr>))
           = storedItems (refreshStoredItems lc app)
       \<and> localStorage (refreshStoredItems lc app) = localStorage app"
proof -
  let ?st = "localStorage app"
  let ?mk = "\<lambda>(k, v). \<lparr>item_key = k, item_value = v, item_size = Blob_size (k @ v)\<rparr>"
  let ?cmp = "\<lambda>a b. lc (item_key a) (item_key b)"
  have proj: "storedItems (refreshStoredItems lc app) = sort_js ?cmp (map ?mk ?st)"
    using assms(1) by (simp add: storedItems_refresh refresh_items_store)
  have contents:
    "mset (map (\<lambda>e. (item_key e, item_value e)) (storedItems (refreshStoredItems lc app)))
       = mset ?st"
    by (simp add: proj mset_sort_js multiset.map_comp o_def case_prod_beta)
  have srt: "sorted_wrt (\<lambda>a b. lc (item_key a) (item_key b) \<le> 0)
               (storedItems (refreshStoredItems lc app))"
    unfolding proj using consistent_on_key [OF assms(2)] by (rule sorted_sort_js)
  have len: "length (storedItems (refreshStoredItems lc app)) = store_length ?st"
    by (simp add: proj length_sort_js store_length_def)
  have repl: "storedItems (refreshStoredItems lc (app\<lparr>storedItems := old\<rparr>))
                = storedItems (refreshStoredItems lc app)"
    by (simp add: refreshStoredItems_def)
  have same: "localStorage (refreshStoredItems lc app) = ?st"
    by (simp add: refreshStoredItems_def)
  from contents srt len repl same show ?thesis by blast
qed

text \<open>
  The scenario of the store \<open>foo=1, bar=2\<close>: the projection lists \<open>bar\<close> before \<open>foo\<close>.
\<close>

theorem refresh_projection_is_sorted_store_witness:
  "wf_store (localStorage (app_of [] store_foo_bar)) \<and> consistent compare_units
   \<and> sorted_wrt (\<lambda>a b. compare_units (item_key a) (item_key b) \<le> 0)
       (storedItems (refreshStoredItems compare_units (app_of [] store_foo_bar)))
   \<and> length (storedItems (refreshStoredItems compare_units (app_of [] store_foo_bar))) = 2
   \<and> map item_key (storedItems (refreshStoredItems compare_units (app_of [] store_foo_bar)))
       = [ascii ''bar'', ascii ''foo'']"
proof -
  have wf: "wf_store (localStorage (app_of [] store_foo_bar))"
    by (simp add: app_of_def store_foo_bar_def wf_store_def ascii_def)
  have keys: "map item_key (storedItems (refreshStoredItems compare_units (app_of [] store_foo_bar)))
       = [ascii ''bar'', ascii ''foo'']"
    using wf by (simp add: storedItems_refresh refresh_items_store)
      (simp add: app_of_def store_foo_bar_def sort_js_def ascii_def)
  from refresh_projection_is_sorted_store [OF wf consistent_compare_units] wf
    consistent_compare_units keys
  show ?thesis by (simp add: store_length_def app_of_def store_foo_bar_def)
qed

text \<open>
  Claim C5. The \<open>size\<close> of every entry of the projection is the number of bytes of the
  UTF-8 encoding of its key followed by its value; the entry \<open>a=bb\<close> has size 3.
\<close>

theorem refresh_size_is_utf8_length:
  "(\<forall>e \<in> set (storedItems (refreshStoredItems lc app)).
      item_size e = length (utf8_encode (item_key e @ item_value e)))
   \<and> storedItems (refreshStoredItems lc (app\<lparr>localStorage := [(ascii ''a'', ascii ''bb'')]\<rparr>))
       = [\<lparr>item_key = ascii ''a'', item_value = ascii ''bb'', item_size = 3\<rparr>]"
proof -
  have "item_size e = length (utf8_encode (item_key e @ item_value e))"
    if "e \<in> set (storedItems (refreshStoredItems lc app))" for e
    using that by (auto simp: storedItems_refresh refresh_items_set entry_of_def Blob_size_def)
  moreover have "wf_store [(ascii ''a'', ascii ''bb'')]"
    by (simp add: wf_store_def)
  then have "storedItems (refreshStoredItems lc (app\<lparr>localStorage := [(ascii ''a'', ascii ''bb'')]\<rparr>))
       = [\<lparr>item_key = ascii ''a'', item_value = ascii ''bb'', item_size = 3\<rparr>]"
    by (simp add: storedItems_refresh refresh_items_store)
      (simp add: sort_js_def ascii_def eval_blob)
  ultimately show ?thesis by blast
qed

text \<open>
  The entry \<open>foo=1\<close> of the scenario store has size 4.
\<close>

theorem refresh_size_is_utf8_length_witness:
  "\<lparr>item_key = ascii ''foo'', item_value = ascii ''1'', item_size = 4\<rparr>
     \<in> set (storedItems (refreshStoredItems compare_units (app_of [] store_foo_bar)))
   \<and> (4::nat) = length (utf8_encode (ascii ''foo'' @ ascii ''1''))"
proof -
  have wf: "wf_store (localStorage (app_of [] store_foo_bar))"
    by (simp add: app_of_def store_foo_bar_def wf_store_def ascii_def)
  have mem: "\<lparr>item_key = ascii ''foo'', item_value = ascii ''1'', item_size = 4\<rparr>
     \<in> set (storedItems (refreshStoredItems compare_units (app_of [] store_foo_bar)))"
    using wf by (simp add: storedItems_refresh refresh_items_store set_sort_js)
      (simp add: app_of_def store_foo_bar_def ascii_def eval_blob)
  from refresh_size_is_utf8_length [of compare_units "app_of [] store_foo_bar"] mem
  show ?thesis by fastforce
qed

text \<open>
  Claim C10. Over any answers of the store interface, the refresh produces one entry for
  every index below the count whose key lookup succeeds and no other entry; an entry
  whose value lookup is absent records the empty string. The loop is a total function
  (its termination is proved with its definition) and has no failing branch.
\<close>

theorem refresh_total_over_partial_lookups:
  "length (refresh_items lc n keyAt get) = length (filter (\<lambda>i. keyAt i \<noteq> None) [0..<n])
   \<and> (\<forall>i<n. \<forall>k. keyAt i = Some k \<longrightarrow>
         \<lparr>item_key = k, item_value = (case get k of None \<Rightarrow> [] | Some v \<Rightarrow> v),
          item_size = Blob_size (k @ (case get k of None \<Rightarrow> [] | Some v \<Rightarrow> v))\<rparr>
           \<in> set (refresh_items lc n keyAt get))
   \<and> (\<forall>e \<in> set (refresh_items lc n keyAt get).
         \<exists>i<n. keyAt i = Some (item_key e)
           \<and> item_value e = (case get (item_key e) of None \<Rightarrow> [] | Some v \<Rightarrow> v))"
proof -
  let ?vl = "\<lambda>k. case get k of None \<Rightarrow> [] | Some v \<Rightarrow> v"
  have entry: "entry_of get k =
      \<lparr>item_key = k, item_value = ?vl k, item_size = Blob_size (k @ ?vl k)\<rparr>" for k
    by (simp add: entry_of_def or_empty_case)
  have produced: "\<lparr>item_key = k, item_value = ?vl k, item_size = Blob_size (k @ ?vl k)\<rparr>
      \<in> set (refresh_items lc n keyAt get)" if "i < n" and "keyAt i = Some k" for i k
    using that unfolding refresh_items_set entry [symmetric] by blast
  have only: "\<exists>i<n. keyAt i = Some (item_key e) \<and> item_value e = ?vl (item_key e)"
    if "e \<in> set (refresh_items lc n keyAt get)" for e
  proof -
    from that obtain k i where "e = entry_of get k" and "i < n" and "keyAt i = Some k"
      unfolding refresh_items_set by blast
    then show ?thesis by (auto simp: entry)
  qed
  from produced only refresh_items_length [of lc n keyAt get] show ?thesis by blast
qed

text \<open>
  An interface with two indices, of which the first has the key \<open>a\<close> without a value.
\<close>

theorem refresh_total_over_partial_lookups_witness:
  "(0::nat) < 2 \<and> (\<lambda>i. if i = (0::nat) then Some (ascii ''a'') else None) 0 = Some (ascii ''a'')
   \<and> (\<lambda>k::jsstring. None :: jsstring option) (ascii ''a'') = None
   \<and> \<lparr>item_key = ascii ''a'', item_value = [], item_size = 1\<rparr>
        \<in> set (refresh_items compare_units 2
                 (\<lambda>i. if i = 0 then Some (ascii ''a'') else None) (\<lambda>k. None))
   \<and> length (refresh_items compare_units 2
                 (\<lambda>i. if i = 0 then Some (ascii ''a'') else None) (\<lambda>k. None)) = 1"
proof -
  let ?keyAt = "\<lambda>i::nat. if i = 0 then Some (ascii ''a'') else None"
  let ?get = "\<lambda>k::jsstring. None :: jsstring option"
  note t = refresh_total_over_partial_lookups [of compare_units 2 ?keyAt ?get]
  have size: "Blob_size (ascii ''a'') = 1"
    by (simp add: ascii_def eval_blob)
  from t have "length (refresh_items compare_units 2 ?keyAt ?get)
                 = length (filter (\<lambda>i. ?keyAt i \<noteq> None) [0..<2])"
    by blast
  then have len: "length (refresh_items compare_units 2 ?keyAt ?get) = 1"
    by (simp add: upt_conv_Cons)
  from t have "(0::nat) < 2 \<longrightarrow> ?keyAt 0 = Some (ascii ''a'') \<longrightarrow>
         \<lparr>item_key = ascii ''a'', item_value = (case ?get (ascii ''a'') of None \<Rightarrow> [] | Some v \<Rightarrow> v),
          item_size = Blob_size (ascii ''a'' @ (case ?get (ascii ''a'') of None \<Rightarrow> [] | Some v \<Rightarrow> v))\<rparr>
           \<in> set (refresh_items compare_units 2 ?keyAt ?get)"
    by blast
  then have mem: "\<lparr>item_key = ascii ''a'', item_value = [], item_size = 1\<rparr>
                    \<in> set (refresh_items compare_units 2 ?keyAt ?get)"
    by (simp add: size)
  from len mem show ?thesis by simp
qed

section \<open>Facts about writes\<close>

lemma getItem_put_item:
  "getItem (put_item k v st) k' = (if k' = k then Some v else getItem st k')"
  by (simp add: getItem_def put_item_def update_conv')

lemma wf_store_put_item: "wf_store st \<Longrightarrow> wf_store (put_item k v st)"
  by (simp add: wf_store_def put_item_def distinct_update)

lemma keys_put_item:
  "map fst (put_item k v st) = (if k \<in> set (map fst st) then map fst st else map fst st @ [k])"
  by (simp add: put_item_def update_keys)

lemma wf_store_write_rows: "wf_store st \<Longrightarrow> wf_store (write_rows st rows)"
  by (induction rows arbitrary: st) (simp_all add: wf_store_put_item)

text \<open>The value a key holds after a run of writes: that of the last row writing it.\<close>

lemma getItem_write_rows:
  "getItem (write_rows st rows) k =
     (if filter (\<lambda>row. trim (row_key row) = k) rows = [] then getItem st k
      else Some (row_value (last (filter (\<lambda>row. trim (row_key row) = k) rows))))"
proof (induction rows rule: rev_induct)
  case Nil
  then show ?case by simp
next
  case (snoc row rows)
  show ?case
  proof (cases "trim (row_key row) = k")
    case True
    then show ?thesis
      by (simp add: getItem_put_item)
  next
    case False
    with snoc show ?thesis
      by (simp add: getItem_put_item)
  qed
qed

lemma keys_write_rows_present:
  "\<forall>row \<in> set rows. trim (row_key row) \<in> set (map fst st) \<Longrightarrow>
   map fst (write_rows st rows) = map fst st"
proof (induction rows arbitrary: st)
  case Nil
  then show ?case by simp
next
  case (Cons row rows)
  have keys: "map fst (put_item (trim (row_key row)) (row_value row) st) = map fst st"
    using Cons.prems by (simp add: keys_put_item)
  have "map fst (write_rows (put_item (trim (row_key row)) (row_value row) st) rows)
          = map fst (put_item (trim (row_key row)) (row_value row) st)"
    using Cons.prems by (intro Cons.IH) (simp add: keys)
  with keys show ?case by simp
qed

lemma keys_write_rows_mono: "set (map fst st) \<subseteq> set (map fst (write_rows st rows))"
proof (induction rows arbitrary: st)
  case Nil
  then show ?case by simp
next
  case (Cons row rows)
  have "set (map fst st) \<subseteq> set (map fst (put_item (trim (row_key row)) (row_value row) st))"
    by (auto simp: keys_put_item)
  also have "\<dots> \<subseteq> set (map fst (write_rows (put_item (trim (row_key row)) (row_value row) st) rows))"
    by (rule Cons.IH)
  finally show ?case by simp
qed

lemma keys_write_rows_written:
  "row \<in> set rows \<Longrightarrow> trim (row_key row) \<in> set (map fst (write_rows st rows))"
proof (induction rows arbitrary: st)
  case Nil
  then show ?case by simp
next
  case (Cons r rows)
  show ?case
  proof (cases "row = r")
    case True
    have "trim (row_key r) \<in> set (map fst (put_item (trim (row_key r)) (row_value r) st))"
      by (simp add: keys_put_item)
    with keys_write_rows_mono [of "put_item (trim (row_key r)) (row_value r) st" rows] True
    show ?thesis by auto
  next
    case False
    with Cons.prems have "row \<in> set rows" by simp
    then have "trim (row_key row)
        \<in> set (map fst (write_rows (put_item (trim (row_key r)) (row_value r) st) rows))"
      by (rule Cons.IH)
    then show ?thesis by simp
  qed
qed

text \<open>Two stores with one value per key, the same keys in the same order and the same lookups are equal.\<close>

lemma store_eqI:
  assumes "wf_store s" "wf_store t" "map fst s = map fst t" "\<And>k. getItem s k = getItem t k"
  shows "s = t"
proof (rule nth_equalityI)
  from assms(3) show len: "length s = length t" by (metis length_map)
  fix i assume i: "i < length s"
  with len have i': "i < length t" by simp
  from assms(3) i i' have k: "fst (s ! i) = fst (t ! i)" by (metis nth_map)
  from i have "(fst (s ! i), snd (s ! i)) \<in> set s" by simp
  with assms(1) have a: "getItem s (fst (s ! i)) = Some (snd (s ! i))"
    unfolding wf_store_def getItem_def by simp
  from i' have "(fst (t ! i), snd (t ! i)) \<in> set t" by simp
  with assms(2) have b: "getItem t (fst (t ! i)) = Some (snd (t ! i))"
    unfolding wf_store_def getItem_def by simp
  from a b k assms(4) [of "fst (s ! i)"] have "snd (s ! i) = snd (t ! i)" by simp
  with k show "s ! i = t ! i" by (simp add: prod_eq_iff)
qed

lemma write_rows_twice:
  assumes "wf_store st"
  shows "write_rows (write_rows st rows) rows = write_rows st rows"
proof (rule store_eqI)
  show "wf_store (write_rows (write_rows st rows) rows)"
    using assms by (simp add: wf_store_write_rows)
  show "wf_store (write_rows st rows)"
    using assms by (simp add: wf_store_write_rows)
  show "map fst (write_rows (write_rows st rows) rows) = map fst (write_rows st rows)"
  proof (rule keys_write_rows_present, rule ballI)
    fix row assume "row \<in> set rows"
    then show "trim (row_key row) \<in> set (map fst (write_rows st rows))"
      by (rule keys_write_rows_written)
  qed
  show "getItem (write_rows (write_rows st rows) rows) k = getItem (write_rows st rows) k" for k
    by (simp add: getItem_write_rows [of "write_rows st rows"] getItem_write_rows [of st])
qed

lemma store_size_put_item: "store_size (put_item k v st) \<le> store_size st + length k + length v"
  by (induction st) (auto simp: store_size_def put_item_def)

section \<open>The save loop\<close>

text \<open>A loop that returns has made every write, in buffer order, and counted them.\<close>

lemma save_loop_returned:
  "save_loop quota rows st c = Inr (st', c') \<Longrightarrow>
   st' = write_rows st (written_rows rows) \<and> c' = c + length (written_rows rows)"
proof (induction rows arbitrary: st c)
  case Nil
  then show ?case by simp
next
  case (Cons row rows)
  show ?case
  proof (cases "trim (row_key row) \<noteq> []")
    case False
    with Cons.prems have "save_loop quota rows st c = Inr (st', c')" by simp
    from Cons.IH [OF this] False show ?thesis by simp
  next
    case True
    with Cons.prems have
      "save_loop quota rows (put_item (trim (row_key row)) (row_value row) st) (c + 1) = Inr (st', c')"
      by (simp add: setItem_def split: if_splits)
    from Cons.IH [OF this] True show ?thesis by simp
  qed
qed

text \<open>A loop that throws has made the writes of some of the first keyed rows only.\<close>

lemma save_loop_thrown:
  "save_loop quota rows st c = Inl (e, st') \<Longrightarrow>
   \<exists>n. st' = write_rows st (take n (written_rows rows))"
proof (induction rows arbitrary: st c)
  case Nil
  then show ?case by simp
next
  case (Cons row rows)
  show ?case
  proof (cases "trim (row_key row) \<noteq> []")
    case False
    with Cons.prems have "save_loop quota rows st c = Inl (e, st')" by simp
    from Cons.IH [OF this] False show ?thesis by simp
  next
    case True
    show ?thesis
    proof (cases "store_size (put_item (trim (row_key row)) (row_value row) st) \<le> quota")
      case False
      with True Cons.prems have "st' = st" by (simp add: setItem_def)
      then have "st' = write_rows st (take 0 (written_rows (row # rows)))" by simp
      then show ?thesis by blast
    next
      case fits: True
      with True Cons.prems have
        "save_loop quota rows (put_item (trim (row_key row)) (row_value row) st) (c + 1)
           = Inl (e, st')"
        by (simp add: setItem_def)
      from Cons.IH [OF this] obtain n where
        "st' = write_rows (put_item (trim (row_key row)) (row_value row) st)
                 (take n (written_rows rows))"
        by blast
      with True have "st' = write_rows st (take (Suc n) (written_rows (row # rows)))" by simp
      then show ?thesis by blast
    qed
  qed
qed

text \<open>No write is refused when the store and the pairs to write fit the quota together.\<close>

lemma save_loop_room:
  "store_size st + sum_list (map row_cost (written_rows rows)) \<le> quota \<Longrightarrow>
   save_loop quota rows st c = Inr (write_rows st (written_rows rows), c + length (written_rows rows))"
proof (induction rows arbitrary: st c)
  case Nil
  then show ?case by simp
next
  case (Cons row rows)
  show ?case
  proof (cases "trim (row_key row) \<noteq> []")
    case False
    with Cons.prems have "store_size st + sum_list (map row_cost (written_rows rows)) \<le> quota"
      by simp
    from Cons.IH [OF this, of c] False show ?thesis by simp
  next
    case True
    let ?st = "put_item (trim (row_key row)) (row_value row) st"
    from store_size_put_item [of "trim (row_key row)" "row_value row" st]
    have size: "store_size ?st \<le> store_size st + row_cost row" by simp
    with True Cons.prems have fits: "store_size ?st \<le> quota" by simp
    from size True Cons.prems
    have "store_size ?st + sum_list (map row_cost (written_rows rows)) \<le> quota" by simp
    from Cons.IH [OF this, of "c + 1"] True fits show ?thesis by (simp add: setItem_def)
  qed
qed

lemma save_loop_no_keys:
  "\<forall>row \<in> set rows. trim (row_key row) = [] \<Longrightarrow> save_loop quota rows st c = Inr (st, c)"
  by (induction rows) simp_all

lemma state_after_returned: "r = Inr app' \<Longrightarrow> state_after r = app'"
  by (simp add: state_after_def)

lemma save_returned:
  assumes "saveToLocalStorage quota lc rnd app = Inr app'"
  shows "localStorage app' = write_rows (localStorage app) (written_rows (inputs app))"
    and "0 < length (written_rows (inputs app)) \<Longrightarrow>
         notification app' =
           Some (ascii ''Successfully saved '' @ string_of_nat (length (written_rows (inputs app)))
                   @ ascii '' item(s)'', Success)
         \<and> storedItems app' =
             refresh_items lc (store_length (localStorage app')) (store_key (localStorage app'))
               (getItem (localStorage app'))
         \<and> inputs app' = [\<lparr>row_id = generateId rnd, row_key = [], row_value = []\<rparr>]"
    and "written_rows (inputs app) = [] \<Longrightarrow>
         app' = app\<lparr>notification := Some (ascii ''Please enter at least one key'', Error)\<rparr>"
proof -
  from assms obtain st c where loop: "save_loop quota (inputs app) (localStorage app) 0 = Inr (st, c)"
    by (auto simp: saveToLocalStorage_def split: sum.splits prod.splits)
  from save_loop_returned [OF loop]
  have st: "st = write_rows (localStorage app) (written_rows (inputs app))"
    and c: "c = length (written_rows (inputs app))"
    by simp_all
  from assms loop have app':
    "app' = (if c > 0 then
               (refreshStoredItems lc
                  (showNotification
                     (ascii ''Successfully saved '' @ string_of_nat c @ ascii '' item(s)'')
                     Success (app\<lparr>localStorage := st\<rparr>)))
               \<lparr>inputs := [empty_row rnd]\<rparr>
             else showNotification (ascii ''Please enter at least one key'') Error
                    (app\<lparr>localStorage := st\<rparr>))"
    by (simp add: saveToLocalStorage_def Let_def)
  show "localStorage app' = write_rows (localStorage app) (written_rows (inputs app))"
    by (simp add: app' st showNotification_def refreshStoredItems_def)
  show "notification app' =
           Some (ascii ''Successfully saved '' @ string_of_nat (length (written_rows (inputs app)))
                   @ ascii '' item(s)'', Success)
         \<and> storedItems app' =
             refresh_items lc (store_length (localStorage app')) (store_key (localStorage app'))
               (getItem (localStorage app'))
         \<and> inputs app' = [\<lparr>row_id = generateId rnd, row_key = [], row_value = []\<rparr>]"
    if "0 < length (written_rows (inputs app))"
    using that by (simp add: app' c showNotification_def refreshStoredItems_def empty_row_def)
  show "app' = app\<lparr>notification := Some (ascii ''Please enter at least one key'', Error)\<rparr>"
    if "written_rows (inputs app) = []"
    using that by (simp add: app' c st showNotification_def)
qed

text \<open>
  A save that throws leaves the buffer, the notification and the projection as they
  were, and the store with the writes of some of the first keyed rows.
\<close>

lemma save_thrown:
  assumes "saveToLocalStorage quota lc rnd app = Inl (e, app')"
  shows "inputs app' = inputs app \<and> notification app' = notification app
       \<and> storedItems app' = storedItems app
       \<and> (\<exists>n. localStorage app' = write_rows (localStorage app) (take n (written_rows (inputs app))))"
proof -
  from assms obtain st where loop: "save_loop quota (inputs app) (localStorage app) 0 = Inl (e, st)"
    and app': "app' = app\<lparr>localStorage := st\<rparr>"
    by (auto simp: saveToLocalStorage_def Let_def split: sum.splits prod.splits)
  from save_loop_thrown [OF loop] app' show ?thesis by simp
qed

lemma save_room:
  assumes "store_size (localStorage app) + sum_list (map row_cost (written_rows (inputs app))) \<le> quota"
  shows "saveToLocalStorage quota lc rnd app = Inr (state_after (saveToLocalStorage quota lc rnd app))"
  by (simp add: saveToLocalStorage_def save_loop_room [OF assms] state_after_def Let_def)

lemma localStorage_state_after_save:
  "localStorage (state_after (saveToLocalStorage quota lc rnd app)) =
     (case save_loop quota (inputs app) (localStorage app) 0 of
        Inl (e, st) \<Rightarrow> st | Inr (st, c) \<Rightarrow> st)"
  by (simp add: saveToLocalStorage_def state_after_def Let_def showNotification_def
      refreshStoredItems_def split: sum.splits prod.splits)

lemmas eval_save = saveToLocalStorage_def setItem_def put_item_def store_size_def state_after_def

section \<open>Saving: claims\<close>

text \<open>
  Claim C1, amended. When the store refuses none of the writes, so that
  \<open>saveToLocalStorage\<close> returns, it has written, in buffer order, the trimmed key and the
  untrimmed value of every row whose trimmed key is not empty, and nothing for the other
  rows; if at least one row was written, the notification is the success message with the
  number of rows written, the projection is the refresh of the store just written, and
  the buffer is one empty row. No write is refused when the store and the pairs to write
  fit the quota together.
\<close>

theorem save_writes_keyed_rows_and_resets:
  "(saveToLocalStorage quota lc rnd app = Inr app' \<longrightarrow>
      localStorage app' =
        foldl (\<lambda>st row. put_item (trim (row_key row)) (row_value row) st) (localStorage app)
          (filter (\<lambda>row. trim (row_key row) \<noteq> []) (inputs app))
      \<and> (0 < length (filter (\<lambda>row. trim (row_key row) \<noteq> []) (inputs app)) \<longrightarrow>
           notification app' =
             Some (ascii ''Successfully saved ''
                     @ string_of_nat (length (filter (\<lambda>row. trim (row_key row) \<noteq> []) (inputs app)))
                     @ ascii '' item(s)'', Success)
           \<and> storedItems app' =
               refresh_items lc (store_length (localStorage app')) (store_key (localStorage app'))
                 (getItem (localStorage app'))
           \<and> inputs app' = [\<lparr>row_id = generateId rnd, row_key = [], row_value = []\<rparr>]))
   \<and> (store_size (localStorage app)
         + sum_list (map (\<lambda>row. length (trim (row_key row)) + length (row_value row))
             (filter (\<lambda>row. trim (row_key row) \<noteq> []) (inputs app))) \<le> quota \<longrightarrow>
        (\<exists>a. saveToLocalStorage quota lc rnd app = Inr a))"
proof -
  have "localStorage app' = write_rows (localStorage app) (written_rows (inputs app))
      \<and> (0 < length (written_rows (inputs app)) \<longrightarrow>
           notification app' =
             Some (ascii ''Successfully saved ''
                     @ string_of_nat (length (written_rows (inputs app)))
                     @ ascii '' item(s)'', Success)
           \<and> storedItems app' =
               refresh_items lc (store_length (localStorage app')) (store_key (localStorage app'))
                 (getItem (localStorage app'))
           \<and> inputs app' = [\<lparr>row_id = generateId rnd, row_key = [], row_value = []\<rparr>])"
    if "saveToLocalStorage quota lc rnd app = Inr app'"
    using save_returned(1) [OF that] save_returned(2) [OF that] by blast
  moreover have "\<exists>a. saveToLocalStorage quota lc rnd app = Inr a"
    if "store_size (localStorage app) + sum_list (map row_cost (written_rows (inputs app))) \<le> quota"
    using save_room [OF that] by blast
  ultimately show ?thesis by blast
qed

text \<open>
  The scenario of the rows \<open>theme=dark\<close> and \<open>(empty key)=x\<close> saved into an empty store
  under a quota of five million code units.
\<close>

theorem save_writes_keyed_rows_and_resets_witness:
  "store_size (localStorage (app_of rows_theme []))
     + sum_list (map (\<lambda>row. length (trim (row_key row)) + length (row_value row))
         (filter (\<lambda>row. trim (row_key row) \<noteq> []) (inputs (app_of rows_theme [])))) \<le> 5242880
   \<and> 0 < length (filter (\<lambda>row. trim (row_key row) \<noteq> []) (inputs (app_of rows_theme [])))
   \<and> localStorage (state_after (saveToLocalStorage 5242880 compare_units rnd_a (app_of rows_theme [])))
       = [(ascii ''theme'', ascii ''dark'')]
   \<and> notification (state_after (saveToLocalStorage 5242880 compare_units rnd_a (app_of rows_theme [])))
       = Some (ascii ''Successfully saved 1 item(s)'', Success)
   \<and> inputs (state_after (saveToLocalStorage 5242880 compare_units rnd_a (app_of rows_theme [])))
       = [\<lparr>row_id = ascii ''4fzyo82mv'', row_key = [], row_value = []\<rparr>]"
proof -
  let ?app = "app_of rows_theme []"
  let ?r = "saveToLocalStorage 5242880 compare_units rnd_a ?app"
  have rows: "filter (\<lambda>row. trim (row_key row) \<noteq> []) (inputs ?app)
                = [\<lparr>row_id = ascii ''r1'', row_key = ascii ''theme'', row_value = ascii ''dark''\<rparr>]"
    by (simp add: app_of_def rows_theme_def eval_string)
  have tr: "trim (ascii ''theme'') = ascii ''theme''"
    by (simp add: eval_string)
  have one: "string_of_nat (Suc 0) = ascii ''1''"
    by (simp add: string_of_nat.simps ascii_def)
  have room: "store_size (localStorage ?app)
     + sum_list (map (\<lambda>row. length (trim (row_key row)) + length (row_value row))
         (filter (\<lambda>row. trim (row_key row) \<noteq> []) (inputs ?app))) \<le> 5242880"
    unfolding rows by (simp add: tr) (simp add: app_of_def store_size_def ascii_def)
  note t = save_writes_keyed_rows_and_resets [of 5242880 compare_units rnd_a ?app "state_after ?r"]
  from t room have "\<exists>a. ?r = Inr a" by blast
  then have ret: "?r = Inr (state_after ?r)"
    by (auto simp: state_after_def)
  from t ret have
    "localStorage (state_after ?r) =
        foldl (\<lambda>st row. put_item (trim (row_key row)) (row_value row) st) (localStorage ?app)
          (filter (\<lambda>row. trim (row_key row) \<noteq> []) (inputs ?app))"
    and "0 < length (filter (\<lambda>row. trim (row_key row) \<noteq> []) (inputs ?app)) \<longrightarrow>
           notification (state_after ?r) =
             Some (ascii ''Successfully saved ''
                     @ string_of_nat (length (filter (\<lambda>row. trim (row_key row) \<noteq> []) (inputs ?app)))
                     @ ascii '' item(s)'', Success)
           \<and> inputs (state_after ?r) = [\<lparr>row_id = generateId rnd_a, row_key = [], row_value = []\<rparr>]"
    by blast+
  then have "localStorage (state_after ?r) = [(ascii ''theme'', ascii ''dark'')]"
    and "notification (state_after ?r) = Some (ascii ''Successfully saved 1 item(s)'', Success)"
    and "inputs (state_after ?r) = [\<lparr>row_id = ascii ''4fzyo82mv'', row_key = [], row_value = []\<rparr>]"
    unfolding rows
    by (simp_all add: tr one generateId_rnd_a put_item_def app_of_def) (simp add: ascii_def)
  with room rows show ?thesis by simp
qed

text \<open>
  Claim C1 as stated fails: under a quota of four code units the write of \<open>ok=1\<close> is
  made and the write of \<open>big=12345\<close> is refused. The handler throws: one row is
  written, and there is no notification, no refresh and no reset of the buffer.
\<close>

theorem save_refused_write_no_notification:
  "saveToLocalStorage 4 compare_units rnd_a (app_of rows_over [])
     = Inl (QuotaExceededError,
            \<lparr>inputs = rows_over, storedItems = [], notification = None,
              localStorage = [(ascii ''ok'', ascii ''1'')]\<rparr>)
   \<and> map (\<lambda>row. trim (row_key row)) rows_over = [ascii ''ok'', ascii ''big'']"
  by (simp add: eval_save app_of_def rows_over_def eval_string)

text \<open>
  Claim C2. If the key of every row trims to the empty string, the save returns, puts up
  the error notification and changes nothing else: the buffer, the store and the
  projection are as they were.
\<close>

theorem save_without_keys_reports_error:
  assumes "\<forall>row \<in> set (inputs app). trim (row_key row) = []"
  shows "saveToLocalStorage quota lc rnd app =
           Inr (app\<lparr>notification := Some (ascii ''Please enter at least one key'', Error)\<rparr>)
       \<and> inputs (state_after (saveToLocalStorage quota lc rnd app)) = inputs app
       \<and> localStorage (state_after (saveToLocalStorage quota lc rnd app)) = localStorage app
       \<and> storedItems (state_after (saveToLocalStorage quota lc rnd app)) = storedItems app"
proof -
  from assms have none: "filter (\<lambda>row. trim (row_key row) \<noteq> []) (inputs app) = []"
    by (simp add: filter_empty_conv)
  from assms have loop: "save_loop quota (inputs app) (localStorage app) 0 = Inr (localStorage app, 0)"
    by (rule save_loop_no_keys)
  then have "saveToLocalStorage quota lc rnd app =
           Inr (app\<lparr>notification := Some (ascii ''Please enter at least one key'', Error)\<rparr>)"
    by (simp add: saveToLocalStorage_def showNotification_def)
  then show ?thesis by (simp add: state_after_def)
qed

text \<open>A buffer of a row without key and a row whose key is blanks, over the scenario store.\<close>

theorem save_without_keys_reports_error_witness:
  "map (\<lambda>row. trim (row_key row)) (inputs (app_of rows_blank store_foo_bar)) = [[], []]
   \<and> saveToLocalStorage 5242880 compare_units rnd_a (app_of rows_blank store_foo_bar)
       = Inr \<lparr>inputs = rows_blank, storedItems = [],
              notification = Some (ascii ''Please enter at least one key'', Error),
              localStorage = store_foo_bar\<rparr>"
proof -
  have blank: "\<forall>row \<in> set (inputs (app_of rows_blank store_foo_bar)). trim (row_key row) = []"
    by (simp add: app_of_def rows_blank_def eval_string)
  have keys: "map (\<lambda>row. trim (row_key row)) (inputs (app_of rows_blank store_foo_bar)) = [[], []]"
    by (simp add: app_of_def rows_blank_def eval_string)
  from save_without_keys_reports_error [OF blank, of 5242880 compare_units rnd_a] keys
  show ?thesis by (simp add: app_of_def)
qed

text \<open>
  Claim C6, amended. For a store with one value per key and a buffer with at least one
  row whose trimmed key is not empty: if the store refuses no write of the first save
  nor of a second save from the same buffer, the second save leaves the store exactly as
  the first left it.
\<close>

theorem save_twice_same_store:
  assumes "wf_store (localStorage app)"
    and "\<exists>row \<in> set (inputs app). trim (row_key row) \<noteq> []"
    and "saveToLocalStorage quota lc rnd1 app = Inr app1"
    and "saveToLocalStorage quota lc rnd2 (app1\<lparr>inputs := inputs app\<rparr>) = Inr app2"
  shows "localStorage app2 = localStorage app1"
proof -
  let ?rows = "written_rows (inputs app)"
  from save_returned(1) [OF assms(3)]
  have first: "localStorage app1 = write_rows (localStorage app) ?rows" .
  from save_returned(1) [OF assms(4)]
  have "localStorage app2 = write_rows (localStorage app1) ?rows" by simp
  with first have "localStorage app2 = write_rows (write_rows (localStorage app) ?rows) ?rows"
    by simp
  also from assms(1) have "\<dots> = write_rows (localStorage app) ?rows"
    by (rule write_rows_twice)
  finally show ?thesis using first by simp
qed

text \<open>
  Three rows, two of them writing \<open>theme\<close>, saved twice over the scenario store under a
  quota of five million code units.
\<close>

theorem save_twice_same_store_witness:
  "wf_store (localStorage (app_of rows_dup store_foo_bar))
   \<and> trim (row_key (rows_dup ! 0)) = ascii ''theme''
   \<and> saveToLocalStorage 5242880 compare_units rnd_a (app_of rows_dup store_foo_bar)
       = Inr (state_after (saveToLocalStorage 5242880 compare_units rnd_a
                (app_of rows_dup store_foo_bar)))
   \<and> saveToLocalStorage 5242880 compare_units rnd_b
        ((state_after (saveToLocalStorage 5242880 compare_units rnd_a
            (app_of rows_dup store_foo_bar)))
           \<lparr>inputs := inputs (app_of rows_dup store_foo_bar)\<rparr>)
       = Inr (state_after (saveToLocalStorage 5242880 compare_units rnd_b
           ((state_after (saveToLocalStorage 5242880 compare_units rnd_a
               (app_of rows_dup store_foo_bar)))
              \<lparr>inputs := inputs (app_of rows_dup store_foo_bar)\<rparr>)))
   \<and> localStorage (state_after (saveToLocalStorage 5242880 compare_units rnd_b
        ((state_after (saveToLocalStorage 5242880 compare_units rnd_a
            (app_of rows_dup store_foo_bar)))
           \<lparr>inputs := inputs (app_of rows_dup store_foo_bar)\<rparr>)))
       = [(ascii ''foo'', ascii ''1''), (ascii ''bar'', ascii ''2''),
          (ascii ''theme'', ascii ''light''), (ascii ''lang'', ascii ''en'')]"
proof -
  let ?app = "app_of rows_dup store_foo_bar"
  let ?r1 = "saveToLocalStorage 5242880 compare_units rnd_a ?app"
  let ?r2 = "saveToLocalStorage 5242880 compare_units rnd_b
               ((state_after ?r1)\<lparr>inputs := inputs ?app\<rparr>)"
  let ?st = "[(ascii ''foo'', ascii ''1''), (ascii ''bar'', ascii ''2''),
              (ascii ''theme'', ascii ''light''), (ascii ''lang'', ascii ''en'')]"
  have wf: "wf_store (localStorage ?app)"
    by (simp add: app_of_def store_foo_bar_def wf_store_def ascii_def)
  have ex: "\<exists>row \<in> set (inputs ?app). trim (row_key row) \<noteq> []"
    by (simp add: app_of_def rows_dup_def eval_string)
  have k0: "trim (row_key (rows_dup ! 0)) = ascii ''theme''"
    by (simp add: rows_dup_def eval_string)
  have rows: "written_rows (inputs ?app) = rows_dup"
    by (simp add: app_of_def rows_dup_def eval_string)
  have written: "write_rows (localStorage ?app) rows_dup = ?st"
    by (simp add: app_of_def rows_dup_def store_foo_bar_def eval_string put_item_def)
  have "store_size (localStorage ?app) + sum_list (map row_cost (written_rows (inputs ?app)))
          \<le> 5242880"
    unfolding rows
    by (simp add: app_of_def rows_dup_def store_foo_bar_def eval_string store_size_def)
  then have ret1: "?r1 = Inr (state_after ?r1)"
    by (rule save_room)
  from save_returned(1) [OF ret1] have st1: "localStorage (state_after ?r1) = ?st"
    by (simp only: rows written)
  have "store_size (localStorage ((state_after ?r1)\<lparr>inputs := inputs ?app\<rparr>))
          + sum_list (map row_cost (written_rows (inputs ((state_after ?r1)\<lparr>inputs := inputs ?app\<rparr>))))
          \<le> 5242880"
    by (simp add: st1 rows del: filter.simps)
      (simp add: rows_dup_def eval_string store_size_def)
  then have ret2: "?r2 = Inr (state_after ?r2)"
    by (rule save_room)
  from save_twice_same_store [OF wf ex ret1 ret2] st1
  have "localStorage (state_after ?r2) = ?st" by simp
  with wf k0 ret1 ret2 show ?thesis by simp
qed

text \<open>
  Claim C6 as stated fails: under a quota of sixteen code units the first save of the
  rows \<open>c=x\<close>, \<open>a=LLLLLLLLLL\<close>, \<open>a=s\<close>, \<open>b=MMMMMMMMMM\<close>, \<open>c=y\<close> into an empty store
  returns with the store \<open>c=y, a=s, b=MMMMMMMMMM\<close>; the second save from the same buffer
  writes \<open>c=x\<close>, is refused the write of \<open>a=LLLLLLLLLL\<close> and leaves a different store.
\<close>

theorem save_twice_refused_differs:
  "localStorage (state_after (saveToLocalStorage 16 compare_units rnd_a (app_of rows_cycle [])))
     = [(ascii ''c'', ascii ''y''), (ascii ''a'', ascii ''s''), (ascii ''b'', ascii ''MMMMMMMMMM'')]
   \<and> localStorage (state_after (saveToLocalStorage 16 compare_units rnd_b
        ((state_after (saveToLocalStorage 16 compare_units rnd_a (app_of rows_cycle [])))
           \<lparr>inputs := inputs (app_of rows_cycle [])\<rparr>)))
     = [(ascii ''c'', ascii ''x''), (ascii ''a'', ascii ''s''), (ascii ''b'', ascii ''MMMMMMMMMM'')]
   \<and> localStorage (state_after (saveToLocalStorage 16 compare_units rnd_b
        ((state_after (saveToLocalStorage 16 compare_units rnd_a (app_of rows_cycle [])))
           \<lparr>inputs := inputs (app_of rows_cycle [])\<rparr>)))
     \<noteq> localStorage (state_after (saveToLocalStorage 16 compare_units rnd_a (app_of rows_cycle [])))"
proof -
  let ?app = "app_of rows_cycle []"
  let ?r1 = "saveToLocalStorage 16 compare_units rnd_a ?app"
  let ?r2 = "saveToLocalStorage 16 compare_units rnd_b ((state_after ?r1)\<lparr>inputs := inputs ?app\<rparr>)"
  let ?st1 = "[(ascii ''c'', ascii ''y''), (ascii ''a'', ascii ''s''), (ascii ''b'', ascii ''MMMMMMMMMM'')]"
  let ?st2 = "[(ascii ''c'', ascii ''x''), (ascii ''a'', ascii ''s''), (ascii ''b'', ascii ''MMMMMMMMMM'')]"
  have loop1: "save_loop 16 rows_cycle [] 0 = Inr (?st1, 5)"
    by (simp add: rows_cycle_def eval_string setItem_def put_item_def store_size_def)
  have loop2: "save_loop 16 rows_cycle ?st1 0 = Inl (QuotaExceededError, ?st2)"
    by (simp add: rows_cycle_def eval_string setItem_def put_item_def store_size_def)
  have st1: "localStorage (state_after ?r1) = ?st1"
    by (simp add: localStorage_state_after_save app_of_def loop1)
  have "localStorage (state_after ?r2) = ?st2"
    by (simp add: localStorage_state_after_save [of 16 compare_units rnd_b] st1 loop2)
      (simp add: app_of_def loop2)
  moreover have "?st2 \<noteq> ?st1"
    by (simp add: ascii_def)
  ultimately show ?thesis using st1 by simp
qed

text \<open>
  Claim C8, amended. When two or more rows have the same non-empty trimmed key and the
  store refuses none of the writes, so that the save returns, the save has written the
  rows in buffer order and the store holds, for that key, the value of the last of these
  rows.
\<close>

theorem save_duplicate_keys_last_wins:
  assumes "k \<noteq> []"
    and "2 \<le> length (filter (\<lambda>row. trim (row_key row) = k) (inputs app))"
    and "saveToLocalStorage quota lc rnd app = Inr app'"
  shows "localStorage app' =
           foldl (\<lambda>st row. put_item (trim (row_key row)) (row_value row) st) (localStorage app)
             (filter (\<lambda>row. trim (row_key row) \<noteq> []) (inputs app))
       \<and> getItem (localStorage app') k =
           Some (row_value (last (filter (\<lambda>row. trim (row_key row) = k) (inputs app))))"
proof -
  have same: "filter (\<lambda>row. trim (row_key row) = k) (written_rows (inputs app))
                = filter (\<lambda>row. trim (row_key row) = k) (inputs app)"
  proof -
    have "filter (\<lambda>row. trim (row_key row) = k) (written_rows (inputs app))
            = filter (\<lambda>row. trim (row_key row) \<noteq> [] \<and> trim (row_key row) = k) (inputs app)"
      by simp
    also have "\<dots> = filter (\<lambda>row. trim (row_key row) = k) (inputs app)"
      using assms(1) by (intro filter_cong) auto
    finally show ?thesis .
  qed
  from assms(2) have rows: "filter (\<lambda>row. trim (row_key row) = k) (inputs app) \<noteq> []"
    by auto
  have "getItem (write_rows (localStorage app) (written_rows (inputs app))) k =
          Some (row_value (last (filter (\<lambda>row. trim (row_key row) = k) (inputs app))))"
    by (simp only: getItem_write_rows same rows if_False)
  with save_returned(1) [OF assms(3)] show ?thesis by simp
qed

text \<open>
  The rows \<open>theme=dark\<close> and \<open>" theme "=light\<close>: the store ends with \<open>theme=light\<close>.
\<close>

theorem save_duplicate_keys_last_wins_witness:
  "ascii ''theme'' \<noteq> []
   \<and> length (filter (\<lambda>row. trim (row_key row) = ascii ''theme'')
        (inputs (app_of rows_dup store_foo_bar))) = 2
   \<and> saveToLocalStorage 5242880 compare_units rnd_a (app_of rows_dup store_foo_bar)
       = Inr (state_after (saveToLocalStorage 5242880 compare_units rnd_a
                (app_of rows_dup store_foo_bar)))
   \<and> getItem (localStorage (state_after (saveToLocalStorage 5242880 compare_units rnd_a
        (app_of rows_dup store_foo_bar)))) (ascii ''theme'') = Some (ascii ''light'')"
proof -
  let ?app = "app_of rows_dup store_foo_bar"
  let ?r = "saveToLocalStorage 5242880 compare_units rnd_a ?app"
  have ne: "ascii ''theme'' \<noteq> []"
    by (simp add: ascii_def)
  have rows: "filter (\<lambda>row. trim (row_key row) = ascii ''theme'') (inputs ?app)
      = [\<lparr>row_id = ascii ''r1'', row_key = ascii ''theme'', row_value = ascii ''dark''\<rparr>,
         \<lparr>row_id = ascii ''r3'', row_key = ascii '' theme '', row_value = ascii ''light''\<rparr>]"
    by (simp add: app_of_def rows_dup_def eval_string)
  then have two: "2 \<le> length (filter (\<lambda>row. trim (row_key row) = ascii ''theme'') (inputs ?app))"
    by simp
  have keyed: "written_rows (inputs ?app) = rows_dup"
    by (simp add: app_of_def rows_dup_def eval_string)
  have "store_size (localStorage ?app) + sum_list (map row_cost (written_rows (inputs ?app)))
          \<le> 5242880"
    unfolding keyed
    by (simp add: app_of_def rows_dup_def store_foo_bar_def eval_string store_size_def)
  then have ret: "?r = Inr (state_after ?r)"
    by (rule save_room)
  from save_duplicate_keys_last_wins [OF ne two ret]
  have "getItem (localStorage (state_after ?r)) (ascii ''theme'')
        = Some (row_value (last (filter (\<lambda>row. trim (row_key row) = ascii ''theme'')
            (inputs ?app))))"
    by (rule conjunct2)
  then have "getItem (localStorage (state_after ?r)) (ascii ''theme'') = Some (ascii ''light'')"
    unfolding rows by simp
  with ne rows ret show ?thesis by simp
qed

text \<open>
  Claim C8 as stated fails: under a quota of four code units the rows \<open>k=1\<close> and
  \<open>k=12345\<close> have the same key, the second write is refused, and the store keeps the
  value of the first row, not that of the last.
\<close>

theorem save_duplicate_keys_refused_keeps_first:
  "length (filter (\<lambda>row. trim (row_key row) = ascii ''k'') (inputs (app_of rows_dup_over []))) = 2
   \<and> getItem (localStorage (state_after
        (saveToLocalStorage 4 compare_units rnd_a (app_of rows_dup_over [])))) (ascii ''k'')
       = Some (ascii ''1'')
   \<and> getItem (localStorage (state_after
        (saveToLocalStorage 4 compare_units rnd_a (app_of rows_dup_over [])))) (ascii ''k'')
       \<noteq> Some (row_value (last (filter (\<lambda>row. trim (row_key row) = ascii ''k'')
             (inputs (app_of rows_dup_over [])))))"
  by (simp add: eval_save app_of_def rows_dup_over_def eval_string getItem_def)


lemma removeItem_filter: "removeItem k st = filter (\<lambda>e. fst e \<noteq> k) st"
  by (induction st) (simp_all add: removeItem_def)

text \<open>
  Claim C7. \<open>deleteItem\<close> removes the entry of the key without looking it up first and
  keeps every other entry, in order; for an absent key the store is unchanged. It then
  refreshes the projection from the new store and puts up the success notification that
  names the key.
\<close>

theorem deleteItem_removes_key:
  "localStorage (deleteItem lc k app) = filter (\<lambda>e. fst e \<noteq> k) (localStorage app)
   \<and> getItem (localStorage (deleteItem lc k app)) k = None
   \<and> (\<forall>k'. k' \<noteq> k \<longrightarrow>
         getItem (localStorage (deleteItem lc k app)) k' = getItem (localStorage app) k')
   \<and> (getItem (localStorage app) k = None \<longrightarrow>
         localStorage (deleteItem lc k app) = localStorage app)
   \<and> storedItems (deleteItem lc k app) =
       refresh_items lc (store_length (localStorage (deleteItem lc k app)))
         (store_key (localStorage (deleteItem lc k app)))
         (getItem (localStorage (deleteItem lc k app)))
   \<and> notification (deleteItem lc k app) = Some (ascii ''Deleted \"'' @ k @ ascii ''\"'', Success)
   \<and> inputs (deleteItem lc k app) = inputs app"
proof -
  have st: "localStorage (deleteItem lc k app) = removeItem k (localStorage app)"
    by (simp add: deleteItem_def showNotification_def refreshStoredItems_def)
  have flt: "removeItem k (localStorage app) = filter (\<lambda>e. fst e \<noteq> k) (localStorage app)"
    by (rule removeItem_filter)
  have gone: "getItem (removeItem k (localStorage app)) k = None"
    by (simp add: getItem_def removeItem_def delete_conv')
  have others: "getItem (removeItem k (localStorage app)) k' = getItem (localStorage app) k'"
    if "k' \<noteq> k" for k'
    using that by (simp add: getItem_def removeItem_def)
  have absent: "removeItem k (localStorage app) = localStorage app"
    if "getItem (localStorage app) k = None"
    using that by (simp add: getItem_def removeItem_def map_of_eq_None_iff)
  have mirror: "storedItems (deleteItem lc k app) =
       refresh_items lc (store_length (localStorage (deleteItem lc k app)))
         (store_key (localStorage (deleteItem lc k app)))
         (getItem (localStorage (deleteItem lc k app)))"
    by (simp add: deleteItem_def showNotification_def refreshStoredItems_def)
  have msg: "notification (deleteItem lc k app)
                = Some (ascii ''Deleted \"'' @ k @ ascii ''\"'', Success)"
    by (simp add: deleteItem_def showNotification_def)
  have rows: "inputs (deleteItem lc k app) = inputs app"
    by (simp add: deleteItem_def showNotification_def refreshStoredItems_def)
  from flt gone others absent mirror msg rows show ?thesis
    unfolding st by simp
qed

text \<open>
  The scenario: deleting \<open>bar\<close> from the store \<open>foo, bar\<close> leaves \<open>foo\<close>; deleting it
  again changes nothing.
\<close>

theorem deleteItem_removes_key_witness:
  "ascii ''foo'' \<noteq> ascii ''bar''
   \<and> getItem (localStorage (app_of [] [(ascii ''foo'', ascii ''1'')])) (ascii ''bar'') = None
   \<and> localStorage (deleteItem compare_units (ascii ''bar'') (app_of [] store_foo_bar))
       = [(ascii ''foo'', ascii ''1'')]
   \<and> getItem (localStorage (deleteItem compare_units (ascii ''bar'') (app_of [] store_foo_bar)))
        (ascii ''foo'') = Some (ascii ''1'')
   \<and> localStorage (deleteItem compare_units (ascii ''bar'') (app_of [] [(ascii ''foo'', ascii ''1'')]))
       = [(ascii ''foo'', ascii ''1'')]
   \<and> map item_key (storedItems (deleteItem compare_units (ascii ''bar'') (app_of [] store_foo_bar)))
       = [ascii ''foo'']"
proof -
  have ne: "ascii ''foo'' \<noteq> ascii ''bar''"
    by (simp add: ascii_def)
  have absent: "getItem (localStorage (app_of [] [(ascii ''foo'', ascii ''1'')])) (ascii ''bar'') = None"
    by (simp add: app_of_def getItem_def ascii_def)
  note a = deleteItem_removes_key [of compare_units "ascii ''bar''" "app_of [] store_foo_bar"]
  note b = deleteItem_removes_key [of compare_units "ascii ''bar''"
             "app_of [] [(ascii ''foo'', ascii ''1'')]"]
  from a have st: "localStorage (deleteItem compare_units (ascii ''bar'') (app_of [] store_foo_bar))
       = [(ascii ''foo'', ascii ''1'')]"
    by (simp add: app_of_def store_foo_bar_def ascii_def)
  from a ne have other: "getItem (localStorage (deleteItem compare_units (ascii ''bar'')
        (app_of [] store_foo_bar))) (ascii ''foo'') = Some (ascii ''1'')"
    by (simp add: app_of_def store_foo_bar_def getItem_def)
  from b have "getItem (localStorage (app_of [] [(ascii ''foo'', ascii ''1'')])) (ascii ''bar'') = None
      \<longrightarrow> localStorage (deleteItem compare_units (ascii ''bar'')
            (app_of [] [(ascii ''foo'', ascii ''1'')]))
          = localStorage (app_of [] [(ascii ''foo'', ascii ''1'')])"
    by blast
  with absent have noop:
    "localStorage (deleteItem compare_units (ascii ''bar'') (app_of [] [(ascii ''foo'', ascii ''1'')]))
       = [(ascii ''foo'', ascii ''1'')]"
    by (simp add: app_of_def)
  from a have "storedItems (deleteItem compare_units (ascii ''bar'') (app_of [] store_foo_bar))
       = refresh_items compare_units (store_length [(ascii ''foo'', ascii ''1'')])
           (store_key [(ascii ''foo'', ascii ''1'')]) (getItem [(ascii ''foo'', ascii ''1'')])"
    by (simp only: st)
  then have mirror: "map item_key (storedItems (deleteItem compare_units (ascii ''bar'')
        (app_of [] store_foo_bar))) = [ascii ''foo'']"
    by (simp add: refresh_items_store wf_store_def sort_js_def)
  from ne absent st other noop mirror show ?thesis by simp
qed

section \<open>The edit buffer: claims\<close>

lemma at_most_one_with_id:
  "distinct (map row_id rows) \<Longrightarrow> length (filter (\<lambda>row. row_id row = i) rows) \<le> 1"
proof (induction rows)
  case Nil
  then show ?case by simp
next
  case (Cons r rows)
  show ?case
  proof (cases "row_id r = i")
    case True
    with Cons.prems have "row_id row \<noteq> i" if "row \<in> set rows" for row
      using that by (metis distinct.simps(2) imageI list.simps(9) set_map)
    then have "filter (\<lambda>row. row_id row = i) rows = []"
      by (simp add: filter_empty_conv)
    with True show ?thesis by simp
  next
    case False
    with Cons show ?thesis by simp
  qed
qed

lemma length_removeRow:
  assumes "distinct (map row_id rows)" and "1 \<le> length rows"
  shows "1 \<le> length (removeRow i rows)"
proof (cases "length rows > 1")
  case False
  with assms(2) show ?thesis by (simp add: removeRow_def)
next
  case True
  have "length rows = length (filter (\<lambda>row. row_id row = i) rows)
                      + length (filter (\<lambda>row. row_id row \<noteq> i) rows)"
    using sum_length_filter_compl [of "\<lambda>row. row_id row = i" rows] by simp
  with at_most_one_with_id [OF assms(1), of i] True
  have "1 \<le> length (filter (\<lambda>row. row_id row \<noteq> i) rows)" by linarith
  with True show ?thesis by (simp add: removeRow_def)
qed

lemma distinct_removeRow:
  "distinct (map row_id rows) \<Longrightarrow> distinct (map row_id (removeRow i rows))"
  by (simp add: removeRow_def distinct_map_filter)

lemma distinct_addRow:
  "distinct (map row_id rows) \<Longrightarrow> generateId rnd \<notin> set (map row_id rows) \<Longrightarrow>
   distinct (map row_id (addRow rnd rows))"
  by (simp add: addRow_def empty_row_def)

lemma run_ops_keeps_a_row:
  "fresh_ops ops rows \<Longrightarrow> distinct (map row_id rows) \<Longrightarrow> 1 \<le> length rows \<Longrightarrow>
   1 \<le> length (run_ops ops rows)"
proof (induction ops arbitrary: rows)
  case Nil
  then show ?case by simp
next
  case (Cons op ops)
  show ?case
  proof (cases op)
    case (AddRow rnd)
    with Cons.prems have "fresh_ops ops (addRow rnd rows)"
      and "distinct (map row_id (addRow rnd rows))"
      by (simp_all add: distinct_addRow)
    moreover have "1 \<le> length (addRow rnd rows)" by (simp add: addRow_def)
    ultimately have "1 \<le> length (run_ops ops (addRow rnd rows))" by (rule Cons.IH)
    with AddRow show ?thesis by simp
  next
    case (RemoveRow i)
    with Cons.prems have "fresh_ops ops (removeRow i rows)" by simp
    moreover from Cons.prems have "distinct (map row_id (removeRow i rows))"
      by (simp add: distinct_removeRow)
    moreover from Cons.prems have "1 \<le> length (removeRow i rows)"
      by (intro length_removeRow)
    ultimately have "1 \<le> length (run_ops ops (removeRow i rows))" by (rule Cons.IH)
    with RemoveRow show ?thesis by simp
  qed
qed

lemma fresh_ops_take: "fresh_ops ops rows \<Longrightarrow> fresh_ops (take n ops) rows"
proof (induction ops arbitrary: n rows)
  case Nil
  then show ?case by simp
next
  case (Cons op ops)
  show ?case
  proof (cases n)
    case 0
    then show ?thesis by simp
  next
    case (Suc m)
    with Cons show ?thesis by (cases op) simp_all
  qed
qed

text \<open>
  Claim C3, amended. Along every sequence of \<open>addRow\<close> and \<open>removeRow\<close> from the initial
  buffer in which each generated identifier is absent from the buffer it is added to, the
  buffer holds at least one row after every step; and \<open>removeRow\<close> leaves a buffer of
  exactly one row as it is.
\<close>

theorem buffer_keeps_a_row_with_fresh_ids:
  assumes "fresh_ops ops (initial_inputs rnd)"
  shows "(\<forall>n. 1 \<le> length (run_ops (take n ops) (initial_inputs rnd)))
       \<and> (length rows = 1 \<longrightarrow> removeRow i rows = rows)"
proof -
  have "1 \<le> length (run_ops (take n ops) (initial_inputs rnd))" for n
  proof (rule run_ops_keeps_a_row)
    from assms show "fresh_ops (take n ops) (initial_inputs rnd)" by (rule fresh_ops_take)
    show "distinct (map row_id (initial_inputs rnd))" by (simp add: initial_inputs_def)
    show "1 \<le> length (initial_inputs rnd)" by (simp add: initial_inputs_def)
  qed
  moreover have "length rows = 1 \<longrightarrow> removeRow i rows = rows"
    by (simp add: removeRow_def)
  ultimately show ?thesis by blast
qed

text \<open>
  A row is added, the first row is removed, and the removal of the only row left is refused.
\<close>

theorem buffer_keeps_a_row_with_fresh_ids_witness:
  "fresh_ops [AddRow rnd_b, RemoveRow (ascii ''4fzyo82mv''), RemoveRow (ascii ''8k2x91bq7'')]
     (initial_inputs rnd_a)
   \<and> 1 \<le> length (run_ops (take 3 [AddRow rnd_b, RemoveRow (ascii ''4fzyo82mv''),
                                    RemoveRow (ascii ''8k2x91bq7'')]) (initial_inputs rnd_a))
   \<and> run_ops [AddRow rnd_b, RemoveRow (ascii ''4fzyo82mv''), RemoveRow (ascii ''8k2x91bq7'')]
       (initial_inputs rnd_a)
       = [\<lparr>row_id = ascii ''8k2x91bq7'', row_key = [], row_value = []\<rparr>]
   \<and> length [\<lparr>row_id = ascii ''8k2x91bq7'', row_key = [], row_value = []\<rparr>] = 1
   \<and> removeRow (ascii ''8k2x91bq7'') [\<lparr>row_id = ascii ''8k2x91bq7'', row_key = [], row_value = []\<rparr>]
       = [\<lparr>row_id = ascii ''8k2x91bq7'', row_key = [], row_value = []\<rparr>]"
proof -
  let ?ops = "[AddRow rnd_b, RemoveRow (ascii ''4fzyo82mv''), RemoveRow (ascii ''8k2x91bq7'')]"
  let ?row = "\<lparr>row_id = ascii ''8k2x91bq7'', row_key = [], row_value = []\<rparr>"
  have ne: "ascii ''8k2x91bq7'' \<noteq> ascii ''4fzyo82mv''"
    by (simp add: ascii_def)
  have fresh: "fresh_ops ?ops (initial_inputs rnd_a)"
    using ne by (simp add: initial_inputs_def empty_row_def generateId_rnd_a generateId_rnd_b)
  have run: "run_ops ?ops (initial_inputs rnd_a) = [?row]"
    using ne by (simp add: initial_inputs_def empty_row_def addRow_def removeRow_def
        generateId_rnd_a generateId_rnd_b)
  note t = buffer_keeps_a_row_with_fresh_ids [OF fresh, of "[?row]" "ascii ''8k2x91bq7''"]
  from t have "1 \<le> length (run_ops (take 3 ?ops) (initial_inputs rnd_a))" by blast
  moreover from t have "length [?row] = 1 \<longrightarrow> removeRow (ascii ''8k2x91bq7'') [?row] = [?row]"
    by blast
  then have "removeRow (ascii ''8k2x91bq7'') [?row] = [?row]" by simp
  ultimately show ?thesis using fresh run by simp
qed

text \<open>
  Claim C3 as stated fails: when the random draw of \<open>addRow\<close> repeats the draw of the
  initial row, both rows carry one identifier, the buffer has two rows, and \<open>removeRow\<close>
  of that identifier filters out both.
\<close>

theorem buffer_emptied_by_repeated_id:
  "\<not> 1 \<le> length (run_ops [AddRow rnd_a, RemoveRow (ascii ''4fzyo82mv'')] (initial_inputs rnd_a))"
  by (simp add: initial_inputs_def empty_row_def addRow_def removeRow_def generateId_rnd_a)

text \<open>
  Claim C9, amended. The buffer starts with one row of empty key and value; \<open>addRow\<close>
  appends one empty row whose identifier is the one generated from the random draw and
  keeps the rows already there, at any length of the buffer. The new identifier differs
  from those of the existing rows when the generated identifier is not among them;
  nothing in the code checks it.
\<close>

theorem addRow_appends_generated_row:
  "initial_inputs rnd0 = [\<lparr>row_id = generateId rnd0, row_key = [], row_value = []\<rparr>]
   \<and> addRow rnd rows = rows @ [\<lparr>row_id = generateId rnd, row_key = [], row_value = []\<rparr>]
   \<and> length (addRow rnd rows) = length rows + 1
   \<and> (generateId rnd \<notin> set (map row_id rows) \<longrightarrow>
        (\<forall>row \<in> set rows. row_id row \<noteq> row_id (last (addRow rnd rows))))
   \<and> (distinct (map row_id (addRow rnd rows)) \<longleftrightarrow>
        distinct (map row_id rows) \<and> generateId rnd \<notin> set (map row_id rows))"
proof -
  have "row_id row \<noteq> row_id (last (addRow rnd rows))"
    if "generateId rnd \<notin> set (map row_id rows)" and "row \<in> set rows" for row
    using that by (metis addRow_def empty_row_def KeyValuePair.select_convs(1) imageI
        last_snoc set_map)
  moreover have "addRow rnd rows = rows @ [\<lparr>row_id = generateId rnd, row_key = [], row_value = []\<rparr>]"
    by (simp add: addRow_def empty_row_def)
  moreover have "initial_inputs rnd0 = [\<lparr>row_id = generateId rnd0, row_key = [], row_value = []\<rparr>]"
    by (simp add: initial_inputs_def empty_row_def)
  moreover have "length (addRow rnd rows) = length rows + 1"
    by (simp add: addRow_def)
  moreover have "distinct (map row_id (addRow rnd rows)) \<longleftrightarrow>
        distinct (map row_id rows) \<and> generateId rnd \<notin> set (map row_id rows)"
    by (simp add: addRow_def empty_row_def)
  ultimately show ?thesis by blast
qed

text \<open>
  A second draw that differs from the first.
\<close>

theorem addRow_appends_generated_row_witness:
  "generateId rnd_b \<notin> set (map row_id (initial_inputs rnd_a))
   \<and> addRow rnd_b (initial_inputs rnd_a)
       = [\<lparr>row_id = ascii ''4fzyo82mv'', row_key = [], row_value = []\<rparr>,
          \<lparr>row_id = ascii ''8k2x91bq7'', row_key = [], row_value = []\<rparr>]
   \<and> row_id (last (addRow rnd_b (initial_inputs rnd_a))) \<noteq> ascii ''4fzyo82mv''
   \<and> distinct (map row_id (addRow rnd_b (initial_inputs rnd_a)))"
proof -
  have ne: "ascii ''8k2x91bq7'' \<noteq> ascii ''4fzyo82mv''"
    by (simp add: ascii_def)
  have init: "initial_inputs rnd_a = [\<lparr>row_id = ascii ''4fzyo82mv'', row_key = [], row_value = []\<rparr>]"
    by (simp add: initial_inputs_def empty_row_def generateId_rnd_a)
  have fresh: "generateId rnd_b \<notin> set (map row_id (initial_inputs rnd_a))"
    using ne by (simp add: init generateId_rnd_b)
  note t = addRow_appends_generated_row [of rnd_a rnd_b "initial_inputs rnd_a"]
  from t have "addRow rnd_b (initial_inputs rnd_a)
       = initial_inputs rnd_a @ [\<lparr>row_id = generateId rnd_b, row_key = [], row_value = []\<rparr>]"
    by blast
  then have app: "addRow rnd_b (initial_inputs rnd_a)
       = [\<lparr>row_id = ascii ''4fzyo82mv'', row_key = [], row_value = []\<rparr>,
          \<lparr>row_id = ascii ''8k2x91bq7'', row_key = [], row_value = []\<rparr>]"
    by (simp add: init generateId_rnd_b)
  from t fresh have "\<forall>row \<in> set (initial_inputs rnd_a).
      row_id row \<noteq> row_id (last (addRow rnd_b (initial_inputs rnd_a)))"
    by blast
  then have other: "row_id (last (addRow rnd_b (initial_inputs rnd_a))) \<noteq> ascii ''4fzyo82mv''"
    by (simp add: init neq_commute)
  have "distinct (map row_id (initial_inputs rnd_a))"
    by (simp add: init)
  with t fresh have dist: "distinct (map row_id (addRow rnd_b (initial_inputs rnd_a)))"
    by blast
  from fresh app other dist show ?thesis by simp
qed

text \<open>
  Claim C9 as stated fails: a draw equal to that of the initial row gives the new row the
  identifier of the existing one.
\<close>

theorem addRow_repeats_an_id:
  "row_id (last (addRow rnd_a (initial_inputs rnd_a))) \<in> set (map row_id (initial_inputs rnd_a))
   \<and> \<not> distinct (map row_id (addRow rnd_a (initial_inputs rnd_a)))"
  by (simp add: initial_inputs_def addRow_def empty_row_def)

end
